theory Spec2Isabelle
  imports Main "HOL-Library.Char_ord" "HOL-Library.List_Lexorder" "HOL-Library.Sublist"
begin

section \<open>Package maps\<close>

text \<open>
  A Go map is given by its entries, in the order in which a \<^verbatim>\<open>range\<close> loop of the run visits
  them (Go leaves that order unspecified, so every order is covered by quantifying over the
  list). The keys of a map are pairwise different. The map under construction
  (\<^verbatim>\<open>result\<close>) is a partial function, \<^verbatim>\<open>result[k] = v\<close> is the update
  \<open>result(k \<mapsto> v)\<close>.

  \<^verbatim>\<open>
  func Merge[K comparable, V any](m1, m2 map[K]V) map[K]V {
      result := make(map[K]V, len(m1)+len(m2))
      for k, v := range m2 { result[k] = v }
      for k, v := range m1 { result[k] = v }
      return result
  }
  \<close>
\<close>

type_synonym ('k, 'v) gomap = "('k \<times> 'v) list"

definition Merge :: "('k, 'v) gomap \<Rightarrow> ('k, 'v) gomap \<Rightarrow> ('k \<rightharpoonup> 'v)" where
  "Merge m1 m2 =
     (let result = Map.empty;
          result = fold (\<lambda>(k, v) result. result(k \<mapsto> v)) m2 result;
          result = fold (\<lambda>(k, v) result. result(k \<mapsto> v)) m1 result
      in result)"

section \<open>Packages maths and slices\<close>

text \<open>
  \<^verbatim>\<open>constraints.Ordered\<close> is modelled by a linear order with a zero value (the integers,
  and strings with the empty string as zero). Floating-point element types, whose
  comparison is not a linear order, are outside the model.
\<close>

definition GreaterThan :: "'a::linorder \<Rightarrow> 'a \<Rightarrow> bool" where
  "GreaterThan a b = (a > b)"

definition LessThan :: "'a::linorder \<Rightarrow> 'a \<Rightarrow> bool" where
  "LessThan a b = (a < b)"

text \<open>
  \<^verbatim>\<open>
  func extremum[T constraints.Ordered](items []T, predicate func(T, T) bool) T {
      var zero T
      if len(items) == 0 { return zero }
      result := items[0]
      for _, item := range items {
          if predicate(item, result) { result = item }
      }
      return result
  }
  \<close>
\<close>

definition extremum :: "'a::zero list \<Rightarrow> ('a \<Rightarrow> 'a \<Rightarrow> bool) \<Rightarrow> 'a" where
  "extremum items predicate =
     (if length items = 0 then 0
      else fold (\<lambda>item result. if predicate item result then item else result)
             items (items ! 0))"

definition slices_Max :: "'a::{zero, linorder} list \<Rightarrow> 'a" where
  "slices_Max items = extremum items GreaterThan"

definition slices_Min :: "'a::{zero, linorder} list \<Rightarrow> 'a" where
  "slices_Min items = extremum items LessThan"

section \<open>The merge-request title pattern\<close>

text \<open>
  Both cleanup scripts compile the same pattern,
  \<^verbatim>\<open>regexp.MustCompile(`(.*)\s*\[([A-Z0-9]+-[0-9]+)\]`)\<close>, and read it with
  \<^verbatim>\<open>FindStringSubmatch\<close>. Go's \<^verbatim>\<open>regexp\<close> returns the leftmost match and, among the
  matches that start there, the one a backtracking search finds first. The matcher below is
  that search: \<open>rmatch r s c\<close> lists, in the order in which backtracking tries them, the
  ways in which \<open>r\<close> matches a prefix of \<open>s\<close>, each as the rest of the input and the
  capture groups set so far. Repetition is greedy (longer first). Strings are byte strings;
  the classes of the pattern are ASCII, so matching bytes and matching UTF-8 runes agree.
\<close>

datatype re = Class "char \<Rightarrow> bool" | Seq re re | Star re | Group nat re

type_synonym caps = "nat \<Rightarrow> string option"

function rmatch :: "re \<Rightarrow> string \<Rightarrow> caps \<Rightarrow> (string \<times> caps) list" where
  "rmatch (Class p) s c = (case s of [] \<Rightarrow> [] | x # xs \<Rightarrow> if p x then [(xs, c)] else [])"
| "rmatch (Seq a b) s c = concat (map (\<lambda>(s', c'). rmatch b s' c') (rmatch a s c))"
| "rmatch (Star a) s c =
     concat (map (\<lambda>(s', c'). if length s' < length s then rmatch (Star a) s' c' else [])
                 (rmatch a s c)) @ [(s, c)]"
| "rmatch (Group n a) s c =
     map (\<lambda>(s', c'). (s', c'(n \<mapsto> take (length s - length s') s))) (rmatch a s c)"
  by pat_completeness auto
termination
  by (relation "measures [\<lambda>(r, s, c). size r, \<lambda>(r, s, c). length s]") auto

declare rmatch.simps [simp del]

definition Plus :: "re \<Rightarrow> re" where
  "Plus a = Seq a (Star a)"

fun numSubexp :: "re \<Rightarrow> nat" where
  "numSubexp (Class p) = 0"
| "numSubexp (Seq a b) = max (numSubexp a) (numSubexp b)"
| "numSubexp (Star a) = numSubexp a"
| "numSubexp (Group n a) = max n (numSubexp a)"

text \<open>
  \<^verbatim>\<open>FindStringSubmatch\<close>: the first start position, from the left, at which the pattern
  matches; the result is the matched text followed by the text of each group, and the
  empty slice (Go's \<^verbatim>\<open>nil\<close>) when the pattern matches nowhere.
\<close>

definition submatches :: "re \<Rightarrow> string \<Rightarrow> string \<times> caps \<Rightarrow> string list" where
  "submatches r s m =
     (case m of (s', c) \<Rightarrow>
        take (length s - length s') s #
        map (\<lambda>n. case c n of None \<Rightarrow> [] | Some g \<Rightarrow> g) [1..<Suc (numSubexp r)])"

fun FindStringSubmatch :: "re \<Rightarrow> string \<Rightarrow> string list" where
  "FindStringSubmatch r [] =
     (case rmatch r [] Map.empty of m # _ \<Rightarrow> submatches r [] m | [] \<Rightarrow> [])"
| "FindStringSubmatch r (x # t) =
     (case rmatch r (x # t) Map.empty of
        m # _ \<Rightarrow> submatches r (x # t) m
      | [] \<Rightarrow> FindStringSubmatch r t)"

text \<open>The classes of the pattern: \<^verbatim>\<open>.\<close> (any byte but a newline), \<^verbatim>\<open>\s\<close>
  (\<^verbatim>\<open>[\t\n\f\r ]\<close>), \<^verbatim>\<open>[A-Z0-9]\<close> and \<^verbatim>\<open>[0-9]\<close>.\<close>

definition anyChar :: "char \<Rightarrow> bool" where
  "anyChar c = (c \<noteq> CHR 0x0A)"

definition isSpace :: "char \<Rightarrow> bool" where
  "isSpace c = (c \<in> set [CHR 0x09, CHR 0x0A, CHR 0x0C, CHR 0x0D, CHR '' ''])"

definition isUpperAlnum :: "char \<Rightarrow> bool" where
  "isUpperAlnum c = ((CHR ''A'' \<le> c \<and> c \<le> CHR ''Z'') \<or> (CHR ''0'' \<le> c \<and> c \<le> CHR ''9''))"

definition isDigit :: "char \<Rightarrow> bool" where
  "isDigit c = (CHR ''0'' \<le> c \<and> c \<le> CHR ''9'')"

text \<open>The bracketed part of the pattern, \<^verbatim>\<open>\[([A-Z0-9]+-[0-9]+)\]\<close>, and the whole pattern.\<close>

definition bracketedIssue :: re where
  "bracketedIssue =
     Seq (Class (\<lambda>c. c = CHR ''[''))
    (Seq (Group 2 (Seq (Plus (Class isUpperAlnum))
                  (Seq (Class (\<lambda>c. c = CHR ''-''))
                       (Plus (Class isDigit)))))
         (Class (\<lambda>c. c = CHR '']'')))"

definition mrTitleRegex :: re where
  "mrTitleRegex =
     Seq (Group 1 (Star (Class anyChar))) (Seq (Star (Class isSpace)) bracketedIssue)"

text \<open>
  \<^verbatim>\<open>
  func parseMRTitle(title string) (string, string) {
      matches := mrTitleRegex.FindStringSubmatch(title)
      if len(matches) != 3 { return title, "" }
      return matches[1], fmt.Sprintf("[<https://jira.YOURDOMAIN.com/browse/%s|%s>]", matches[2], matches[2])
  }
  func getJiraIssueID(title string) string {
      matches := mrTitleRegex.FindStringSubmatch(title)
      if len(matches) == 3 { return matches[2] }
      return ""
  }
  \<close>
\<close>

definition parseMRTitle :: "string \<Rightarrow> string \<times> string" where
  "parseMRTitle title =
     (let matches = FindStringSubmatch mrTitleRegex title in
      if length matches \<noteq> 3 then (title, '''')
      else (matches ! 1,
            ''[<https://jira.YOURDOMAIN.com/browse/'' @ matches ! 2 @ ''|'' @ matches ! 2 @ ''>]''))"

definition getJiraIssueID :: "string \<Rightarrow> string" where
  "getJiraIssueID title =
     (let matches = FindStringSubmatch mrTitleRegex title in
      if length matches = 3 then matches ! 2 else '''')"

text \<open>
  The words of the specification about titles, for comparison with the pattern: a
  bracketed token is \<^verbatim>\<open>[\<close>, one or more upper-case letters or digits, a dash, one or more
  digits, \<^verbatim>\<open>]\<close>. \<open>afterToken s\<close> is the text that follows such a token at the very
  start of \<open>s\<close>; \<open>hasToken\<close> finds a token anywhere in a title, \<open>endsInToken\<close> one that
  ends the title. \<open>trim\<close> removes surrounding whitespace.
\<close>

definition isToken :: "string \<Rightarrow> string \<Rightarrow> bool" where
  "isToken key num \<longleftrightarrow>
     key \<noteq> [] \<and> list_all isUpperAlnum key \<and> num \<noteq> [] \<and> list_all isDigit num"

definition afterToken :: "string \<Rightarrow> string option" where
  "afterToken s =
     (case s of
        [] \<Rightarrow> None
      | b # s1 \<Rightarrow>
          (case dropWhile isUpperAlnum s1 of
             [] \<Rightarrow> None
           | d # s2 \<Rightarrow>
               (case dropWhile isDigit s2 of
                  [] \<Rightarrow> None
                | e # s3 \<Rightarrow>
                    if b = CHR ''['' \<and> d = CHR ''-'' \<and> e = CHR '']'' \<and>
                       isToken (takeWhile isUpperAlnum s1) (takeWhile isDigit s2)
                    then Some s3 else None)))"

fun hasToken :: "string \<Rightarrow> bool" where
  "hasToken [] = False"
| "hasToken (x # s) = (afterToken (x # s) \<noteq> None \<or> hasToken s)"

fun endsInToken :: "string \<Rightarrow> bool" where
  "endsInToken [] = False"
| "endsInToken (x # s) = (afterToken (x # s) = Some [] \<or> endsInToken s)"

definition trim :: "string \<Rightarrow> string" where
  "trim s = rev (dropWhile isSpace (rev (dropWhile isSpace s)))"

section \<open>The config-file sort-order linter\<close>

text \<open>
  The linter reads the file named by its first argument line by line
  (\<^verbatim>\<open>bufio.Scanner\<close>) and checks that table headers, and the keys inside a table, come
  in ascending order. Its input is modelled by what the run reads: the program arguments,
  and for a file name either nothing (the file cannot be opened) or the lines the scanner
  delivers together with the scanner's final error. \<^verbatim>\<open>strings.TrimSpace\<close> belongs to Go's
  library and trims Unicode white space; it is a parameter of the model, so that the
  results hold for the library's function. How a run ends:
\<close>

datatype lint_exit =
    Sorted
  | OpenError
  | TableNotSorted string string
  | KeyNotSorted string string
  | ScanError string
  | IndexOutOfRange

text \<open>
  \<^verbatim>\<open>var tableRegexp = regexp.MustCompile(`^\[.*\]$`)\<close>: the two anchors tie a match to the
  whole line, so \<^verbatim>\<open>MatchString\<close> holds when some way of matching the body of the pattern
  from the start of the line leaves nothing of the line.
\<close>

definition tableRegexp :: re where
  "tableRegexp =
     Seq (Class (\<lambda>c. c = CHR ''['')) (Seq (Star (Class anyChar)) (Class (\<lambda>c. c = CHR '']'')))"

definition MatchWhole :: "re \<Rightarrow> string \<Rightarrow> bool" where
  "MatchWhole r s = list_ex (\<lambda>(s', c). s' = []) (rmatch r s Map.empty)"

text \<open>
  The loop of \<^verbatim>\<open>main\<close>, with the state \<^verbatim>\<open>(previousTable, previousKey)\<close>; \<open>Inl\<close> ends the
  run, \<open>Inr\<close> is the state after the last line.
  \<^verbatim>\<open>
  for scanner.Scan() {
      line := scanner.Text()
      if line == "" || strings.TrimSpace(line)[0] == '#' { continue }
      if tableRegexp.MatchString(line) {
          currTable := line[1 : len(line)-1]
          if currTable < previousTable { fmt.Printf(...); os.Exit(1) }
          previousTable = currTable
          previousKey = ""
      } else {
          currKey := strings.TrimSpace(strings.Split(line, "=")[0])
          if currKey < previousKey { fmt.Printf(...); os.Exit(1) }
          previousKey = currKey
      }
  }
  \<close>
  Indexing the empty string, \<^verbatim>\<open>strings.TrimSpace(line)[0]\<close>, is the run-time panic
  \<^verbatim>\<open>index out of range\<close>.
\<close>

fun scanLines :: "(string \<Rightarrow> string) \<Rightarrow> string list \<Rightarrow> string \<times> string \<Rightarrow>
    lint_exit + string \<times> string" where
  "scanLines TrimSpace [] (previousTable, previousKey) = Inr (previousTable, previousKey)"
| "scanLines TrimSpace (line # rest) (previousTable, previousKey) =
     (if line = '''' then scanLines TrimSpace rest (previousTable, previousKey)
      else case TrimSpace line of
        [] \<Rightarrow> Inl IndexOutOfRange
      | c # _ \<Rightarrow>
          if c = CHR ''#'' then scanLines TrimSpace rest (previousTable, previousKey)
          else if MatchWhole tableRegexp line then
            (let currTable = take (length line - 1 - 1) (drop 1 line) in
             if currTable < previousTable then Inl (TableNotSorted currTable previousTable)
             else scanLines TrimSpace rest (currTable, ''''))
          else
            (let currKey = TrimSpace (takeWhile (\<lambda>c. c \<noteq> CHR ''='') line) in
             if currKey < previousKey then Inl (KeyNotSorted currKey previousKey)
             else scanLines TrimSpace rest (previousTable, currKey)))"

text \<open>
  \<^verbatim>\<open>main\<close>: \<^verbatim>\<open>os.Args[1]\<close> (a panic when there is no argument), \<^verbatim>\<open>os.Open\<close>, the loop, and
  the check of \<^verbatim>\<open>scanner.Err()\<close> after it.
\<close>

definition lint_main :: "(string \<Rightarrow> string) \<Rightarrow> string list \<Rightarrow>
    (string \<Rightarrow> (string list \<times> string option) option) \<Rightarrow> lint_exit" where
  "lint_main TrimSpace args files =
     (case args of
        _ # filename # _ \<Rightarrow>
          (case files filename of
             None \<Rightarrow> OpenError
           | Some (lines, err) \<Rightarrow>
               (case scanLines TrimSpace lines ('''', '''') of
                  Inl stop \<Rightarrow> stop
                | Inr _ \<Rightarrow> (case err of Some e \<Rightarrow> ScanError e | None \<Rightarrow> Sorted)))
      | _ \<Rightarrow> IndexOutOfRange)"

text \<open>
  \<^verbatim>\<open>strings.TrimSpace\<close> on ASCII text, for running the linter on concrete files: Go's ASCII
  white space is tab, line feed, vertical tab, form feed, carriage return and the blank.
\<close>

definition isAsciiSpace :: "char \<Rightarrow> bool" where
  "isAsciiSpace c = (c \<in> set [CHR 0x09, CHR 0x0A, CHR 0x0B, CHR 0x0C, CHR 0x0D, CHR '' ''])"

definition TrimSpaceASCII :: "string \<Rightarrow> string" where
  "TrimSpaceASCII s = rev (dropWhile isAsciiSpace (rev (dropWhile isAsciiSpace s)))"

section \<open>Properties of the collection helpers\<close>

lemma fold_upd_apply:
  "distinct (map fst m) \<Longrightarrow>
   fold (\<lambda>(k, v) result. result(k \<mapsto> v)) m r k =
     (case map_of m k of Some v \<Rightarrow> Some v | None \<Rightarrow> r k)"
proof (induction m arbitrary: r)
  case Nil
  then show ?case by simp
next
  case (Cons p m)
  obtain a b where p: "p = (a, b)" by (cases p)
  from Cons.prems have d: "distinct (map fst m)" and a: "a \<notin> fst ` set m"
    by (simp_all add: p)
  from a have none: "map_of m a = None"
    by (simp add: map_of_eq_None_iff)
  show ?case
    using Cons.IH [OF d, of "r(a \<mapsto> b)"] none
    by (auto simp: p split: option.splits)
qed

lemma Merge_apply:
  assumes "distinct (map fst m1)" "distinct (map fst m2)"
  shows "Merge m1 m2 k =
    (case map_of m1 k of Some v \<Rightarrow> Some v | None \<Rightarrow> map_of m2 k)"
  using assms by (simp add: Merge_def fold_upd_apply split: option.splits)

text \<open>
  Claim C8. For all maps \<open>m1\<close> and \<open>m2\<close>, \<open>Merge m1 m2\<close> has as its key set the union of
  the key sets of \<open>m1\<close> and \<open>m2\<close>, and maps every key \<open>k\<close> to \<open>m1[k]\<close> when \<open>k\<close> is a key
  of \<open>m1\<close> and to \<open>m2[k]\<close> otherwise: the first map wins on a conflict.
\<close>

theorem Merge_first_wins:
  assumes "distinct (map fst m1)" and "distinct (map fst m2)"
  shows "dom (Merge m1 m2) = fst ` set m1 \<union> fst ` set m2 \<and>
         (\<forall>k. Merge m1 m2 k = (if k \<in> fst ` set m1 then map_of m1 k else map_of m2 k))"
proof -
  have ap: "Merge m1 m2 k = (if k \<in> fst ` set m1 then map_of m1 k else map_of m2 k)" for k
  proof (cases "map_of m1 k")
    case None
    then have "k \<notin> fst ` set m1" by (simp add: map_of_eq_None_iff)
    with None show ?thesis by (simp add: Merge_apply [OF assms])
  next
    case (Some v)
    then have "k \<in> fst ` set m1" by (metis map_of_eq_None_iff option.distinct(1))
    with Some show ?thesis by (simp add: Merge_apply [OF assms])
  qed
  have "dom (Merge m1 m2) = fst ` set m1 \<union> fst ` set m2"
  proof (rule set_eqI)
    fix k
    show "k \<in> dom (Merge m1 m2) \<longleftrightarrow> k \<in> fst ` set m1 \<union> fst ` set m2"
      using map_of_eq_None_iff [of m1 k] map_of_eq_None_iff [of m2 k]
      by (auto simp: domIff ap)
  qed
  with ap show ?thesis by blast
qed

theorem Merge_first_wins_witness:
  "dom (Merge [(1::nat, ''a''), (2, ''b'')] [(2, ''x''), (3, ''y'')]) = {1, 2, 3} \<and>
   Merge [(1::nat, ''a''), (2, ''b'')] [(2, ''x''), (3, ''y'')] 2 = Some ''b'' \<and>
   Merge [(1::nat, ''a''), (2, ''b'')] [(2, ''x''), (3, ''y'')] 3 = Some ''y''"
  using Merge_first_wins [of "[(1::nat, ''a''), (2, ''b'')]" "[(2, ''x''), (3, ''y'')]"]
  by auto

lemma fold_GreaterThan:
  fixes r :: "'a::linorder"
  defines "f \<equiv> fold (\<lambda>item result. if GreaterThan item result then item else result)"
  shows "f xs r \<in> insert r (set xs) \<and> r \<le> f xs r \<and> (\<forall>x \<in> set xs. x \<le> f xs r)"
  unfolding f_def
proof (induction xs arbitrary: r)
  case Nil
  then show ?case by simp
next
  case (Cons x xs)
  show ?case
    using Cons.IH [of x] Cons.IH [of r]
    by (auto simp: GreaterThan_def)
qed

lemma fold_LessThan:
  fixes r :: "'a::linorder"
  defines "f \<equiv> fold (\<lambda>item result. if LessThan item result then item else result)"
  shows "f xs r \<in> insert r (set xs) \<and> f xs r \<le> r \<and> (\<forall>x \<in> set xs. f xs r \<le> x)"
  unfolding f_def
proof (induction xs arbitrary: r)
  case Nil
  then show ?case by simp
next
  case (Cons x xs)
  show ?case
    using Cons.IH [of x] Cons.IH [of r]
    by (auto simp: LessThan_def)
qed

lemma slices_Max_nonempty:
  "items \<noteq> [] \<Longrightarrow> slices_Max items \<in> set items \<and> (\<forall>x \<in> set items. x \<le> slices_Max items)"
  using fold_GreaterThan [of items "items ! 0"]
  by (cases items) (auto simp: slices_Max_def extremum_def)

lemma slices_Min_nonempty:
  "items \<noteq> [] \<Longrightarrow> slices_Min items \<in> set items \<and> (\<forall>x \<in> set items. slices_Min items \<le> x)"
  using fold_LessThan [of items "items ! 0"]
  by (cases items) (auto simp: slices_Min_def extremum_def)

text \<open>
  Claim C9. For the empty slice, \<open>slices.Max\<close> and \<open>slices.Min\<close> return the zero value of
  the element type instead of failing; for every non-empty slice they return an element of
  the slice that is maximal (respectively minimal).
\<close>

theorem Max_Min_extremum:
  "slices_Max ([]::'a::{zero, linorder} list) = 0 \<and>
   slices_Min ([]::'a list) = 0 \<and>
   (items \<noteq> [] \<longrightarrow>
      slices_Max items \<in> set items \<and> (\<forall>x \<in> set items. x \<le> slices_Max (items::'a list)) \<and>
      slices_Min items \<in> set items \<and> (\<forall>x \<in> set items. slices_Min items \<le> x))"
  using slices_Max_nonempty [of items] slices_Min_nonempty [of items]
  by (simp add: slices_Max_def slices_Min_def extremum_def)

theorem Max_Min_extremum_witness:
  "slices_Max ([]::int list) = 0 \<and> slices_Min ([]::String.literal list) = 0 \<and>
   slices_Max [3, 1, 4, 1, 5 :: int] = 5 \<and> slices_Min [3, 1, 4, 1, 5 :: int] = 1"
  using Max_Min_extremum [of "[3, 1, 4, 1, 5 :: int]"]
  by (simp add: slices_Max_def slices_Min_def extremum_def GreaterThan_def LessThan_def)

section \<open>The title pattern: what it matches\<close>

lemma rmatch_Star_Class_Nil: "rmatch (Star (Class p)) [] c = [([], c)]"
  by (simp add: rmatch.simps)

lemma rmatch_Star_Class_Cons:
  "rmatch (Star (Class p)) (x # xs) c =
     (if p x then rmatch (Star (Class p)) xs c @ [(x # xs, c)] else [(x # xs, c)])"
  by (subst rmatch.simps(3)) (simp add: rmatch.simps(1))

lemma rmatch_Star_Class:
  "rmatch (Star (Class p)) s c =
     map (\<lambda>k. (drop k s, c)) (rev [0..<Suc (length (takeWhile p s))])"
proof (induction s)
  case Nil
  show ?case by (simp add: rmatch_Star_Class_Nil)
next
  case (Cons x xs)
  show ?case
  proof (cases "p x")
    case True
    let ?n = "length (takeWhile p xs)"
    have "[0..<Suc (Suc ?n)] = 0 # map Suc [0..<Suc ?n]"
      by (simp only: map_Suc_upt upt_conv_Cons [of 0 "Suc (Suc ?n)"] zero_less_Suc)
    then show ?thesis
      using True Cons.IH
      by (simp only: rmatch_Star_Class_Cons takeWhile.simps if_True list.size rev.simps rev_map
          map_append map_map o_def drop_Suc_Cons list.map drop_0 add_Suc_right add_0_right)
  next
    case False
    then show ?thesis by (simp add: rmatch_Star_Class_Cons)
  qed
qed

lemma in_rmatch_Class [simp]:
  "(s', c') \<in> set (rmatch (Class p) s c) \<longleftrightarrow> c' = c \<and> (\<exists>x. s = x # s' \<and> p x)"
  by (cases s) (auto simp: rmatch.simps(1))

lemma in_rmatch_Seq:
  "(s'', c'') \<in> set (rmatch (Seq a b) s c) \<longleftrightarrow>
     (\<exists>s' c'. (s', c') \<in> set (rmatch a s c) \<and> (s'', c'') \<in> set (rmatch b s' c'))"
  by (auto simp: rmatch.simps(2))

lemma in_rmatch_Group:
  "(s', c'') \<in> set (rmatch (Group n a) s c) \<longleftrightarrow>
     (\<exists>c'. (s', c') \<in> set (rmatch a s c) \<and> c'' = c'(n \<mapsto> take (length s - length s') s))"
  by (auto simp: rmatch.simps(4))

lemma in_rmatch_Star_Class:
  "(s', c') \<in> set (rmatch (Star (Class p)) s c) \<longleftrightarrow>
     c' = c \<and> (\<exists>w. s = w @ s' \<and> list_all p w)"
proof
  assume "(s', c') \<in> set (rmatch (Star (Class p)) s c)"
  then obtain k where k: "k \<le> length (takeWhile p s)" and s': "s' = drop k s" and c': "c' = c"
    by (auto simp: rmatch_Star_Class less_Suc_eq_le simp del: upt_Suc)
  have "take k s = take k (takeWhile p s)"
    using k by (metis takeWhile_dropWhile_id take_append diff_is_0_eq' take_0 append_Nil2)
  then have "list_all p (take k s)"
    by (metis in_set_takeD list_all_iff set_takeWhileD)
  with s' c' show "c' = c \<and> (\<exists>w. s = w @ s' \<and> list_all p w)"
    by (metis append_take_drop_id)
next
  assume "c' = c \<and> (\<exists>w. s = w @ s' \<and> list_all p w)"
  then obtain w where c': "c' = c" and s: "s = w @ s'" and w: "list_all p w" by blast
  have "takeWhile p s = w @ takeWhile p s'"
    using w by (simp add: s list_all_iff)
  then have "length w \<le> length (takeWhile p s)" by simp
  moreover have "s' = drop (length w) s" by (simp add: s)
  ultimately show "(s', c') \<in> set (rmatch (Star (Class p)) s c)"
    by (auto simp: rmatch_Star_Class c' less_Suc_eq_le simp del: upt_Suc
        intro!: image_eqI [where x = "length w"])
qed



lemmas in_rmatch = in_rmatch_Seq in_rmatch_Group in_rmatch_Star_Class

lemma take_consumed: "take (length (a @ b) - length b) (a @ b) = a"
  by simp

lemma rmatch_token_iff:
  "(s', c') \<in> set (rmatch bracketedIssue u c) \<longleftrightarrow>
   (\<exists>key num. u = ''['' @ key @ ''-'' @ num @ '']'' @ s' \<and> isToken key num \<and>
        c' = c(2 \<mapsto> key @ ''-'' @ num))"
  (is "?L \<longleftrightarrow> ?R")
proof
  assume ?L
  then obtain x w y w' where u: "u = CHR ''['' # x # w @ CHR ''-'' # y # w' @ CHR '']'' # s'"
    and x: "isUpperAlnum x" and w: "list_all isUpperAlnum w"
    and y: "isDigit y" and w': "list_all isDigit w'"
    and c': "c' = c(2 \<mapsto> take (length (x # w @ CHR ''-'' # y # w' @ CHR '']'' # s') - length (CHR '']'' # s'))
                        (x # w @ CHR ''-'' # y # w' @ CHR '']'' # s'))"
    by (auto simp: bracketedIssue_def in_rmatch Plus_def)
  have "take (length (x # w @ CHR ''-'' # y # w' @ CHR '']'' # s') - length (CHR '']'' # s'))
          (x # w @ CHR ''-'' # y # w' @ CHR '']'' # s') = (x # w) @ ''-'' @ (y # w')"
    using take_consumed [of "x # w @ CHR ''-'' # y # w'" "CHR '']'' # s'"] by simp
  with c' have "c' = c(2 \<mapsto> (x # w) @ ''-'' @ (y # w'))" by simp
  moreover have "u = ''['' @ (x # w) @ ''-'' @ (y # w') @ '']'' @ s'" by (simp add: u)
  moreover have "isToken (x # w) (y # w')" using x w y w' by (simp add: isToken_def)
  ultimately show ?R by blast
next
  assume ?R
  then obtain key num where u: "u = ''['' @ key @ ''-'' @ num @ '']'' @ s'"
    and t: "isToken key num" and c': "c' = c(2 \<mapsto> key @ ''-'' @ num)" by blast
  from t obtain x w y w' where key: "key = x # w" and num: "num = y # w'"
    and x: "isUpperAlnum x" and w: "list_all isUpperAlnum w"
    and y: "isDigit y" and w': "list_all isDigit w'"
    by (cases key; cases num) (auto simp: isToken_def)
  have tk: "take (length (x # w @ CHR ''-'' # y # w' @ CHR '']'' # s') - length (CHR '']'' # s'))
          (x # w @ CHR ''-'' # y # w' @ CHR '']'' # s') = (x # w) @ ''-'' @ (y # w')"
    using take_consumed [of "x # w @ CHR ''-'' # y # w'" "CHR '']'' # s'"] by simp
  have 1: "(w @ CHR ''-'' # y # w' @ CHR '']'' # s', c)
      \<in> set (rmatch (Class isUpperAlnum) (x # w @ CHR ''-'' # y # w' @ CHR '']'' # s') c)"
    using x by simp
  have 2: "(CHR ''-'' # y # w' @ CHR '']'' # s', c)
      \<in> set (rmatch (Star (Class isUpperAlnum)) (w @ CHR ''-'' # y # w' @ CHR '']'' # s') c)"
    using w by (simp add: in_rmatch)
  have 3: "(y # w' @ CHR '']'' # s', c)
      \<in> set (rmatch (Class (\<lambda>c. c = CHR ''-'')) (CHR ''-'' # y # w' @ CHR '']'' # s') c)"
    by simp
  have 4: "(w' @ CHR '']'' # s', c)
      \<in> set (rmatch (Class isDigit) (y # w' @ CHR '']'' # s') c)"
    using y by simp
  have 5: "(CHR '']'' # s', c)
      \<in> set (rmatch (Star (Class isDigit)) (w' @ CHR '']'' # s') c)"
    using w' by (simp add: in_rmatch)
  have G: "(CHR '']'' # s', c)
      \<in> set (rmatch (Seq (Plus (Class isUpperAlnum))
                    (Seq (Class (\<lambda>c. c = CHR ''-''))
                         (Plus (Class isDigit)))) (x # w @ CHR ''-'' # y # w' @ CHR '']'' # s') c)"
    unfolding Plus_def in_rmatch_Seq using 1 2 3 4 5 by blast
  show ?L
    unfolding bracketedIssue_def in_rmatch_Seq [of _ _ "Class (\<lambda>c. c = CHR ''['')"]
      in_rmatch_Seq [of _ _ "Group 2 _"] in_rmatch_Group
    using G tk by (auto simp: u key num c')
qed

lemma run_split:
  "list_all p xs \<Longrightarrow> \<not> p y \<Longrightarrow>
     takeWhile p (xs @ y # ys) = xs \<and> dropWhile p (xs @ y # ys) = y # ys"
  by (induction xs) auto

lemma class_facts:
  "\<not> isUpperAlnum CHR ''-''" "\<not> isDigit CHR '']''" "\<not> isSpace CHR ''[''"
  "\<not> isUpperAlnum CHR ''[''" "\<not> isDigit CHR ''[''"
  "isUpperAlnum x \<Longrightarrow> anyChar x" "isDigit x \<Longrightarrow> anyChar x"
  by (auto simp: isUpperAlnum_def isDigit_def isSpace_def anyChar_def less_eq_char_def)

lemma afterToken_iff:
  "afterToken u = Some rest \<longleftrightarrow>
     (\<exists>key num. u = ''['' @ key @ ''-'' @ num @ '']'' @ rest \<and> isToken key num)"
  (is "?L \<longleftrightarrow> ?R")
proof
  assume ?L
  then obtain b s1 d s2 e where u: "u = b # s1"
    and s1: "dropWhile isUpperAlnum s1 = d # s2"
    and s2: "dropWhile isDigit s2 = e # rest"
    and ch: "b = CHR ''[''" "d = CHR ''-''" "e = CHR '']''"
    and tok: "isToken (takeWhile isUpperAlnum s1) (takeWhile isDigit s2)"
    by (auto simp: afterToken_def split: list.splits if_splits)
  have "s1 = takeWhile isUpperAlnum s1 @ d # s2"
    using s1 takeWhile_dropWhile_id [of isUpperAlnum s1] by simp
  moreover have "s2 = takeWhile isDigit s2 @ e # rest"
    using s2 takeWhile_dropWhile_id [of isDigit s2] by simp
  ultimately have "u = ''['' @ takeWhile isUpperAlnum s1 @ ''-'' @ takeWhile isDigit s2 @ '']'' @ rest"
    using u ch by simp
  with tok show ?R by blast
next
  assume ?R
  then obtain key num where u: "u = ''['' @ key @ ''-'' @ num @ '']'' @ rest"
    and tok: "isToken key num" by blast
  from tok have k: "list_all isUpperAlnum key" and n: "list_all isDigit num"
    by (simp_all add: isToken_def)
  show ?L
    using tok run_split [OF k class_facts(1), of "num @ '']'' @ rest"]
      run_split [OF n class_facts(2), of rest]
    by (simp add: afterToken_def u)
qed

lemma token_unique:
  assumes "''['' @ key @ ''-'' @ num @ '']'' @ r = ''['' @ key' @ ''-'' @ num' @ '']'' @ r'"
    and "isToken key num" and "isToken key' num'"
  shows "key = key' \<and> num = num' \<and> r = r'"
proof -
  from assms(2,3) have k: "list_all isUpperAlnum key" "list_all isUpperAlnum key'"
    and n: "list_all isDigit num" "list_all isDigit num'"
    by (simp_all add: isToken_def)
  from assms(1) have e1: "key @ CHR ''-'' # (num @ '']'' @ r) = key' @ CHR ''-'' # (num' @ '']'' @ r')"
    by simp
  have "key = key'"
    using run_split [OF k(1) class_facts(1), of "num @ '']'' @ r"]
      run_split [OF k(2) class_facts(1), of "num' @ '']'' @ r'"] e1
    by metis
  with e1 have e2: "num @ CHR '']'' # r = num' @ CHR '']'' # r'" by simp
  have "num = num'"
    using run_split [OF n(1) class_facts(2), of r] run_split [OF n(2) class_facts(2), of r'] e2
    by metis
  with e2 \<open>key = key'\<close> show ?thesis by simp
qed

lemma rmatch_mrTitleRegex_iff:
  "(s', c') \<in> set (rmatch mrTitleRegex t c) \<longleftrightarrow>
     (\<exists>w ws key num. t = w @ ws @ ''['' @ key @ ''-'' @ num @ '']'' @ s' \<and>
        list_all anyChar w \<and> list_all isSpace ws \<and> isToken key num \<and>
        c' = c(1 \<mapsto> w, 2 \<mapsto> key @ ''-'' @ num))"
  (is "?L \<longleftrightarrow> ?R")
proof
  assume ?L
  then obtain s1 c1 s2 c2 where
    g: "(s1, c1) \<in> set (rmatch (Group 1 (Star (Class anyChar))) t c)"
    and sp: "(s2, c2) \<in> set (rmatch (Star (Class isSpace)) s1 c1)"
    and tk: "(s', c') \<in> set (rmatch bracketedIssue s2 c2)"
    unfolding mrTitleRegex_def in_rmatch_Seq by blast
  from g obtain w where t: "t = w @ s1" and w: "list_all anyChar w"
    and c1: "c1 = c(1 \<mapsto> take (length t - length s1) t)"
    unfolding in_rmatch_Group in_rmatch_Star_Class by blast
  from sp obtain ws where s1: "s1 = ws @ s2" and ws: "list_all isSpace ws" and c2: "c2 = c1"
    unfolding in_rmatch_Star_Class by blast
  from tk obtain key num where s2: "s2 = ''['' @ key @ ''-'' @ num @ '']'' @ s'"
    and tok: "isToken key num" and c': "c' = c2(2 \<mapsto> key @ ''-'' @ num)"
    unfolding rmatch_token_iff by blast
  have "take (length t - length s1) t = w" by (simp add: t)
  with c1 c2 c' have "c' = c(1 \<mapsto> w, 2 \<mapsto> key @ ''-'' @ num)" by simp
  moreover have "t = w @ ws @ ''['' @ key @ ''-'' @ num @ '']'' @ s'"
    by (simp add: t s1 s2)
  ultimately show ?R using w ws tok by blast
next
  assume ?R
  then obtain w ws key num where t: "t = w @ ws @ ''['' @ key @ ''-'' @ num @ '']'' @ s'"
    and w: "list_all anyChar w" and ws: "list_all isSpace ws" and tok: "isToken key num"
    and c': "c' = c(1 \<mapsto> w, 2 \<mapsto> key @ ''-'' @ num)" by blast
  let ?s2 = "''['' @ key @ ''-'' @ num @ '']'' @ s'"
  let ?s1 = "ws @ ?s2"
  have "take (length t - length ?s1) t = w" by (simp add: t)
  then have g: "(?s1, c(1 \<mapsto> w)) \<in> set (rmatch (Group 1 (Star (Class anyChar))) t c)"
    unfolding in_rmatch_Group in_rmatch_Star_Class using w t by auto
  have sp: "(?s2, c(1 \<mapsto> w)) \<in> set (rmatch (Star (Class isSpace)) ?s1 (c(1 \<mapsto> w)))"
    unfolding in_rmatch_Star_Class using ws by blast
  have tk: "(s', c') \<in> set (rmatch bracketedIssue ?s2 (c(1 \<mapsto> w)))"
    unfolding rmatch_token_iff using tok c' by blast
  show ?L
    unfolding mrTitleRegex_def in_rmatch_Seq using g sp tk by blast
qed

lemma FindStringSubmatch_Nil_iff:
  "FindStringSubmatch r s = [] \<longleftrightarrow> (\<forall>t. suffix t s \<longrightarrow> rmatch r t Map.empty = [])"
proof (induction s)
  case Nil
  show ?case by (simp add: submatches_def split: list.splits prod.splits)
next
  case (Cons x s)
  show ?case
    using Cons.IH
    by (auto simp: suffix_Cons submatches_def split: list.splits prod.splits)
qed

lemma FindStringSubmatch_match:
  "FindStringSubmatch r s \<noteq> [] \<Longrightarrow>
     \<exists>t m rest. suffix t s \<and> rmatch r t Map.empty = m # rest \<and>
       FindStringSubmatch r s = submatches r t m"
proof (induction s)
  case Nil
  then show ?case
    by (cases "rmatch r [] Map.empty") (auto)
next
  case (Cons x s)
  show ?case
  proof (cases "rmatch r (x # s) Map.empty")
    case Nil
    with Cons.prems have "FindStringSubmatch r s \<noteq> []" by (simp)
    from Cons.IH [OF this] Nil show ?thesis
      by (auto simp: suffix_Cons)
  next
    case (Cons m rest)
    then have "FindStringSubmatch r (x # s) = submatches r (x # s) m"
      by (simp)
    with Cons show ?thesis
      using suffix_order.refl by blast
  qed
qed

lemma numSubexp_mrTitleRegex: "numSubexp mrTitleRegex = 2"
  by (simp add: mrTitleRegex_def bracketedIssue_def Plus_def)

lemma all_same_hd:
  assumes "a \<in> set xs" and "\<And>x. x \<in> set xs \<Longrightarrow> x = a"
  shows "\<exists>rest. xs = a # rest"
proof (cases xs)
  case Nil
  with assms(1) show ?thesis by simp
next
  case (Cons y ys)
  have "y = a" by (rule assms(2)) (simp add: Cons)
  with Cons show ?thesis by blast
qed

lemma concat_map_dead:
  "(\<And>k. k \<in> set ks \<Longrightarrow> h k = []) \<Longrightarrow> concat (map h ks) = []"
  by (induction ks) auto

lemma concat_rev_upt_split:
  "m \<le> n \<Longrightarrow> (\<And>k. m < k \<Longrightarrow> h k = []) \<Longrightarrow>
     concat (map h (rev [0..<Suc n])) = h m @ concat (map h (rev [0..<m]))"
proof (induction n)
  case 0
  then show ?case by simp
next
  case (Suc n)
  show ?case
  proof (cases "m = Suc n")
    case True
    then show ?thesis by simp
  next
    case False
    with Suc.prems(1) have le: "m \<le> n" and lt: "m < Suc n" by simp_all
    have "concat (map h (rev [0..<Suc (Suc n)])) = h (Suc n) @ concat (map h (rev [0..<Suc n]))"
      by simp
    also have "h (Suc n) = []" using Suc.prems(2) [OF lt] .
    finally show ?thesis using Suc.IH [OF le Suc.prems(2)] by simp
  qed
qed

lemma rmatch_mrTitleRegex_unfold:
  "rmatch mrTitleRegex s c =
     concat (map (\<lambda>k. rmatch (Seq (Star (Class isSpace)) bracketedIssue) (drop k s)
                        (c(1 \<mapsto> take (length s - length (drop k s)) s)))
                 (rev [0..<Suc (length (takeWhile anyChar s))]))"
proof -
  have "rmatch mrTitleRegex s c =
      concat (map (\<lambda>(s', c'). rmatch (Seq (Star (Class isSpace)) bracketedIssue) s' c')
        (map (\<lambda>(s', c'). (s', c'(1 \<mapsto> take (length s - length s') s)))
           (rmatch (Star (Class anyChar)) s c)))"
    unfolding mrTitleRegex_def
    by (subst rmatch.simps(2), subst rmatch.simps(4)) (rule refl)
  then show ?thesis
    by (simp only: rmatch_Star_Class map_map o_def prod.case)
qed

lemma token_anyChar:
  assumes "isToken key num"
  shows "list_all anyChar (''['' @ key @ ''-'' @ num @ '']'')"
proof -
  from assms have "list_all isUpperAlnum key" and "list_all isDigit num"
    by (simp_all add: isToken_def)
  then have "list_all anyChar key" and "list_all anyChar num"
    unfolding list_all_iff using class_facts(6,7) by blast+
  then show ?thesis by (simp add: anyChar_def)
qed

lemma token_no_bracket:
  assumes "isToken key num"
  shows "CHR ''['' \<notin> set (key @ ''-'' @ num @ '']'')"
proof -
  from assms have "list_all isUpperAlnum key" and "list_all isDigit num"
    by (simp_all add: isToken_def)
  then have "CHR ''['' \<notin> set key" and "CHR ''['' \<notin> set num"
    unfolding list_all_iff using class_facts(4,5) by blast+
  then show ?thesis by simp
qed

lemma space_token_needs_bracket:
  assumes "(s', c') \<in> set (rmatch (Seq (Star (Class isSpace)) bracketedIssue) u c)"
  shows "CHR ''['' \<in> set u"
proof -
  from assms obtain ws key' num' where "u = ws @ ''['' @ key' @ ''-'' @ num' @ '']'' @ s'"
    unfolding in_rmatch_Seq in_rmatch_Star_Class rmatch_token_iff by blast
  then show ?thesis by simp
qed

lemma space_token_dead:
  assumes "isToken key num" and "0 < j"
  shows "rmatch (Seq (Star (Class isSpace)) bracketedIssue)
           (drop j (''['' @ key @ ''-'' @ num @ '']'')) c = []"
proof (rule ccontr)
  let ?u = "drop j (''['' @ key @ ''-'' @ num @ '']'')"
  assume "rmatch (Seq (Star (Class isSpace)) bracketedIssue) ?u c \<noteq> []"
  then obtain m where "m \<in> set (rmatch (Seq (Star (Class isSpace)) bracketedIssue) ?u c)"
    using hd_in_set by blast
  then have "CHR ''['' \<in> set ?u"
    using space_token_needs_bracket [of "fst m" "snd m"] by simp
  moreover from assms(2) obtain i where "j = Suc i" by (cases j) auto
  then have "?u = drop i (key @ ''-'' @ num @ '']'')" by simp
  moreover have "set (drop i (key @ ''-'' @ num @ '']'')) \<subseteq> set (key @ ''-'' @ num @ '']'')"
    by (rule set_drop_subset)
  ultimately show False
    using token_no_bracket [OF assms(1)] by (simp only: subset_iff) blast
qed

lemma space_token_live:
  assumes tok: "isToken key num"
  shows "\<exists>rest. rmatch (Seq (Star (Class isSpace)) bracketedIssue)
                  (''['' @ key @ ''-'' @ num @ '']'') c =
                ([], c(2 \<mapsto> key @ ''-'' @ num)) # rest"
proof (rule all_same_hd)
  let ?T = "''['' @ key @ ''-'' @ num @ '']''"
  have 1: "(?T, c) \<in> set (rmatch (Star (Class isSpace)) ?T c)"
    unfolding in_rmatch_Star_Class by (intro conjI refl exI [where x = "[]"]) simp_all
  have 2: "([], c(2 \<mapsto> key @ ''-'' @ num)) \<in> set (rmatch bracketedIssue ?T c)"
    unfolding rmatch_token_iff using tok by (intro exI [where x = key] exI [where x = num]) simp
  show "([], c(2 \<mapsto> key @ ''-'' @ num))
      \<in> set (rmatch (Seq (Star (Class isSpace)) bracketedIssue) ?T c)"
    unfolding in_rmatch_Seq using 1 2 by blast
next
  fix x
  let ?T = "''['' @ key @ ''-'' @ num @ '']''"
  assume x: "x \<in> set (rmatch (Seq (Star (Class isSpace)) bracketedIssue) ?T c)"
  obtain s' c' where xx: "x = (s', c')" by (cases x)
  with x have "(s', c') \<in> set (rmatch (Seq (Star (Class isSpace)) bracketedIssue) ?T c)"
    by simp
  then obtain ws key' num' where
    T: "?T = ws @ ''['' @ key' @ ''-'' @ num' @ '']'' @ s'" and ws: "list_all isSpace ws"
    and tok': "isToken key' num'" and c': "c' = c(2 \<mapsto> key' @ ''-'' @ num')"
    unfolding in_rmatch_Seq in_rmatch_Star_Class rmatch_token_iff by blast
  have "ws = []"
  proof (cases ws)
    case Nil
    then show ?thesis .
  next
    case (Cons a list)
    with T have "a = CHR ''[''" by simp
    with ws Cons class_facts(3) show ?thesis by simp
  qed
  with T have "''['' @ key @ ''-'' @ num @ '']'' @ [] = ''['' @ key' @ ''-'' @ num' @ '']'' @ s'"
    by simp
  from token_unique [OF this tok tok'] have "key = key'" "num = num'" "[] = s'" by blast+
  with c' xx show "x = ([], c(2 \<mapsto> key @ ''-'' @ num))" by simp
qed

lemma rmatch_mrTitleRegex_trailing:
  assumes pre: "list_all anyChar pre" and tok: "isToken key num"
  shows "\<exists>rest. rmatch mrTitleRegex (pre @ ''['' @ key @ ''-'' @ num @ '']'') c =
           ([], c(1 \<mapsto> pre, 2 \<mapsto> key @ ''-'' @ num)) # rest"
proof -
  let ?T = "''['' @ key @ ''-'' @ num @ '']''"
  let ?s = "pre @ ?T"
  let ?R = "Seq (Star (Class isSpace)) bracketedIssue"
  let ?m = "length pre"
  define h where "h k = rmatch ?R (drop k ?s) (c(1 \<mapsto> take (length ?s - length (drop k ?s)) ?s))" for k
  have "list_all anyChar ?s"
    using pre token_anyChar [OF tok] by (simp only: list_all_append) 
  then have tw: "takeWhile anyChar ?s = ?s"
    by (simp only: takeWhile_eq_all_conv list_all_iff)
  have eq: "rmatch mrTitleRegex ?s c = concat (map h (rev [0..<Suc (length ?s)]))"
    unfolding h_def by (subst rmatch_mrTitleRegex_unfold) (simp only: tw)
  have dead: "h j = []" if "?m < j" for j
  proof -
    from that have "drop j ?s = drop (j - ?m) ?T" and "0 < j - ?m" by simp_all
    then show ?thesis
      unfolding h_def using space_token_dead [OF tok, of "j - ?m"] by simp
  qed
  have "drop ?m ?s = ?T" and "take (length ?s - length ?T) ?s = pre" by simp_all
  then have hm: "h ?m = rmatch ?R ?T (c(1 \<mapsto> pre))"
    unfolding h_def by (simp only:)
  from space_token_live [OF tok, of "c(1 \<mapsto> pre)"] obtain rest where
    rest: "h ?m = ([], c(1 \<mapsto> pre, 2 \<mapsto> key @ ''-'' @ num)) # rest"
    unfolding hm by blast
  have "concat (map h (rev [0..<Suc (length ?s)])) = h ?m @ concat (map h (rev [0..<?m]))"
    by (rule concat_rev_upt_split) (simp_all add: dead)
  then show ?thesis
    unfolding eq rest by simp
qed

lemma hasToken_iff: "hasToken s \<longleftrightarrow> (\<exists>t. suffix t s \<and> afterToken t \<noteq> None)"
proof (induction s)
  case Nil
  show ?case by (simp add: afterToken_def)
next
  case (Cons x s)
  show ?case by (auto simp: Cons.IH suffix_Cons)
qed

lemma endsInToken_iff: "endsInToken s \<longleftrightarrow> (\<exists>t. suffix t s \<and> afterToken t = Some [])"
proof (induction s)
  case Nil
  show ?case by (simp add: afterToken_def)
next
  case (Cons x s)
  show ?case by (auto simp: Cons.IH suffix_Cons)
qed

lemma matches_iff_hasToken: "FindStringSubmatch mrTitleRegex s \<noteq> [] \<longleftrightarrow> hasToken s"
proof
  assume "FindStringSubmatch mrTitleRegex s \<noteq> []"
  then obtain t where t: "suffix t s" and "rmatch mrTitleRegex t Map.empty \<noteq> []"
    unfolding FindStringSubmatch_Nil_iff by blast
  then obtain s' c' where "(s', c') \<in> set (rmatch mrTitleRegex t Map.empty)"
    by (cases "rmatch mrTitleRegex t Map.empty") auto
  then obtain w ws key num where t': "t = w @ ws @ ''['' @ key @ ''-'' @ num @ '']'' @ s'"
    and tok: "isToken key num"
    unfolding rmatch_mrTitleRegex_iff by blast
  let ?u = "''['' @ key @ ''-'' @ num @ '']'' @ s'"
  have "afterToken ?u = Some s'" unfolding afterToken_iff using tok by blast
  moreover have "suffix ?u t"
    unfolding t' by (rule suffixI [of _ "w @ ws"]) simp
  then have "suffix ?u s"
    using t by (rule suffix_order.trans)
  ultimately show "hasToken s" unfolding hasToken_iff by force
next
  assume "hasToken s"
  then obtain t rest where t: "suffix t s" and "afterToken t = Some rest"
    unfolding hasToken_iff by blast
  then obtain key num where t': "t = ''['' @ key @ ''-'' @ num @ '']'' @ rest"
    and tok: "isToken key num"
    unfolding afterToken_iff by blast
  have "(rest, Map.empty(1 \<mapsto> [], 2 \<mapsto> key @ ''-'' @ num)) \<in> set (rmatch mrTitleRegex t Map.empty)"
    unfolding rmatch_mrTitleRegex_iff
    using t' tok by (intro exI [where x = "[]"] exI [where x = key] exI [where x = num]) simp
  then have "rmatch mrTitleRegex t Map.empty \<noteq> []" by force
  with t show "FindStringSubmatch mrTitleRegex s \<noteq> []"
    unfolding FindStringSubmatch_Nil_iff by blast
qed

lemma submatches_mrTitleRegex:
  "submatches mrTitleRegex t (s', c(1 \<mapsto> w, 2 \<mapsto> g)) = [take (length t - length s') t, w, g]"
proof -
  have "[1..<Suc 2] = [1, 2]" by (simp add: upt_rec)
  then show ?thesis
    by (simp add: submatches_def numSubexp_mrTitleRegex del: upt_Suc)
qed

lemma FindStringSubmatch_mrTitleRegex_shape:
  assumes "FindStringSubmatch mrTitleRegex s \<noteq> []"
  shows "\<exists>whole w key num. FindStringSubmatch mrTitleRegex s = [whole, w, key @ ''-'' @ num] \<and>
           isToken key num"
proof -
  from FindStringSubmatch_match [OF assms] obtain t m rest where
    m: "rmatch mrTitleRegex t Map.empty = m # rest"
    and r: "FindStringSubmatch mrTitleRegex s = submatches mrTitleRegex t m" by blast
  obtain s' c' where mm: "m = (s', c')" by (cases m)
  with m have "(s', c') \<in> set (rmatch mrTitleRegex t Map.empty)" by (simp)
  then obtain w key num where tok: "isToken key num"
    and c': "c' = Map.empty(1 \<mapsto> w, 2 \<mapsto> key @ ''-'' @ num)"
    unfolding rmatch_mrTitleRegex_iff by blast
  have "submatches mrTitleRegex t m = [take (length t - length s') t, w, key @ ''-'' @ num]"
    unfolding mm c' by (rule submatches_mrTitleRegex)
  with r have "FindStringSubmatch mrTitleRegex s = [take (length t - length s') t, w, key @ ''-'' @ num]"
    by simp
  with tok show ?thesis by (intro exI conjI)
qed

lemma FindStringSubmatch_mrTitleRegex_trailing:
  assumes "list_all anyChar pre" and "isToken key num"
  shows "FindStringSubmatch mrTitleRegex (pre @ ''['' @ key @ ''-'' @ num @ '']'') =
           [pre @ ''['' @ key @ ''-'' @ num @ '']'', pre, key @ ''-'' @ num]"
proof -
  let ?s = "pre @ ''['' @ key @ ''-'' @ num @ '']''"
  from rmatch_mrTitleRegex_trailing [OF assms, of Map.empty] obtain rest where
    m: "rmatch mrTitleRegex ?s Map.empty = ([], Map.empty(1 \<mapsto> pre, 2 \<mapsto> key @ ''-'' @ num)) # rest"
    by blast
  have "FindStringSubmatch mrTitleRegex ?s =
      submatches mrTitleRegex ?s ([], Map.empty(1 \<mapsto> pre, 2 \<mapsto> key @ ''-'' @ num))"
    using m by (cases ?s) (simp_all)
  then show ?thesis
    by (simp only: submatches_mrTitleRegex list.size diff_zero take_all order_refl)
qed

lemma parseMRTitle_no_token:
  assumes "\<not> hasToken title"
  shows "parseMRTitle title = (title, '''')" and "getJiraIssueID title = ''''"
proof -
  from assms have "FindStringSubmatch mrTitleRegex title = []"
    using matches_iff_hasToken [of title] by blast
  then show "parseMRTitle title = (title, '''')" and "getJiraIssueID title = ''''"
    by (simp_all add: parseMRTitle_def getJiraIssueID_def)
qed

lemma parseMRTitle_token:
  assumes "hasToken title"
  shows "getJiraIssueID title \<noteq> ''''" and "parseMRTitle title \<noteq> (title, '''')"
proof -
  from assms have "FindStringSubmatch mrTitleRegex title \<noteq> []"
    using matches_iff_hasToken [of title] by blast
  from FindStringSubmatch_mrTitleRegex_shape [OF this] obtain whole w key num where
    m: "FindStringSubmatch mrTitleRegex title = [whole, w, key @ ''-'' @ num]" by blast
  show "getJiraIssueID title \<noteq> ''''"
    by (simp add: getJiraIssueID_def m)
  show "parseMRTitle title \<noteq> (title, '''')"
    by (simp add: parseMRTitle_def m)
qed

lemma parseMRTitle_trailing:
  assumes "isToken key num" and "CHR 0x0A \<notin> set pre"
  shows "getJiraIssueID (pre @ ''['' @ key @ ''-'' @ num @ '']'') = key @ ''-'' @ num"
    and "parseMRTitle (pre @ ''['' @ key @ ''-'' @ num @ '']'') =
          (pre, ''[<https://jira.YOURDOMAIN.com/browse/'' @ (key @ ''-'' @ num) @ ''|'' @
                 (key @ ''-'' @ num) @ ''>]'')"
proof -
  from assms(2) have "list_all anyChar pre"
    by (induction pre) (auto simp: anyChar_def)
  from FindStringSubmatch_mrTitleRegex_trailing [OF this assms(1)]
  have m: "FindStringSubmatch mrTitleRegex (pre @ ''['' @ key @ ''-'' @ num @ '']'') =
           [pre @ ''['' @ key @ ''-'' @ num @ '']'', pre, key @ ''-'' @ num]" .
  show "getJiraIssueID (pre @ ''['' @ key @ ''-'' @ num @ '']'') = key @ ''-'' @ num"
    unfolding getJiraIssueID_def m by simp
  show "parseMRTitle (pre @ ''['' @ key @ ''-'' @ num @ '']'') =
          (pre, ''[<https://jira.YOURDOMAIN.com/browse/'' @ (key @ ''-'' @ num) @ ''|'' @
                 (key @ ''-'' @ num) @ ''>]'')"
    unfolding parseMRTitle_def m by simp
qed

text \<open>
  Claim C3, as amended. The title operations \<open>parseMRTitle\<close> and \<open>getJiraIssueID\<close> look
  for a bracketed token (upper-case letters or digits, a dash, digits, in square brackets)
  anywhere in the title: the pattern is not anchored at the end. A title with no such token
  yields the whole title unchanged and an empty issue reference, and a title with such a
  token, trailing or not, yields a non-empty issue reference. For a one-line title that ends
  in such a token, the issue reference is the text inside the brackets, the second result of
  \<open>parseMRTitle\<close> is the link built from it, and the display title is the text before
  the token up to surrounding whitespace (the statement compares the two after trimming,
  whether the whitespace next to the token is removed is left open).
\<close>

theorem title_parsing:
  "(\<not> hasToken title \<longrightarrow> parseMRTitle title = (title, '''') \<and> getJiraIssueID title = '''') \<and>
   (hasToken title \<longrightarrow> getJiraIssueID title \<noteq> '''' \<and> parseMRTitle title \<noteq> (title, '''')) \<and>
   (isToken key num \<and> CHR 0x0A \<notin> set pre \<longrightarrow>
      getJiraIssueID (pre @ ''['' @ key @ ''-'' @ num @ '']'') = key @ ''-'' @ num \<and>
      trim (fst (parseMRTitle (pre @ ''['' @ key @ ''-'' @ num @ '']''))) = trim pre \<and>
      snd (parseMRTitle (pre @ ''['' @ key @ ''-'' @ num @ '']'')) =
        ''[<https://jira.YOURDOMAIN.com/browse/'' @ (key @ ''-'' @ num) @ ''|'' @
        (key @ ''-'' @ num) @ ''>]'')"
  using parseMRTitle_no_token [of title] parseMRTitle_token [of title]
    parseMRTitle_trailing [of key num pre]
  by simp

lemma title_examples:
  "\<not> hasToken ''Update README''" "hasToken ''Fix [ABC-1] now''"
  "isToken ''ISSUE'' ''1234''" "\<not> endsInToken ''Fix [ABC-1] now''"
  by code_simp+

theorem title_parsing_witness:
  "\<not> hasToken ''Update README'' \<and>
   parseMRTitle ''Update README'' = (''Update README'', '''') \<and>
   getJiraIssueID ''Update README'' = '''' \<and>
   hasToken ''Fix [ABC-1] now'' \<and> getJiraIssueID ''Fix [ABC-1] now'' \<noteq> '''' \<and>
   isToken ''ISSUE'' ''1234'' \<and> CHR 0x0A \<notin> set ''Title '' \<and>
   getJiraIssueID ''Title [ISSUE-1234]'' = ''ISSUE-1234'' \<and>
   trim (fst (parseMRTitle ''Title [ISSUE-1234]'')) = ''Title''"
proof -
  note T1 = title_parsing [of "''Update README''" "''ISSUE''" "''1234''" "''Title ''"]
  note T2 = title_parsing [of "''Fix [ABC-1] now''" "''ISSUE''" "''1234''" "''Title ''"]
  have t: "trim ''Title '' = ''Title''" by code_simp
  have nl: "CHR 0x0A \<notin> set ''Title ''" by simp
  from T1 title_examples(1)
  have p1: "parseMRTitle ''Update README'' = (''Update README'', '''') \<and>
            getJiraIssueID ''Update README'' = ''''" by blast
  from T2 title_examples(2)
  have p2: "getJiraIssueID ''Fix [ABC-1] now'' \<noteq> ''''" by blast
  from T1 title_examples(3) nl
  have "getJiraIssueID (''Title '' @ ''['' @ ''ISSUE'' @ ''-'' @ ''1234'' @ '']'') = ''ISSUE'' @ ''-'' @ ''1234'' \<and>
        trim (fst (parseMRTitle (''Title '' @ ''['' @ ''ISSUE'' @ ''-'' @ ''1234'' @ '']''))) = trim ''Title ''"
    by blast
  then have p3: "getJiraIssueID ''Title [ISSUE-1234]'' = ''ISSUE-1234'' \<and>
        trim (fst (parseMRTitle ''Title [ISSUE-1234]'')) = ''Title''"
    by (simp add: t)
  from p1 p2 p3 title_examples(1,2,3) nl show ?thesis by blast
qed

text \<open>
  The claim as it is written fails on a title whose token is followed by more text: the
  title does not end in a token, yet the token is extracted and the text after it is lost.
\<close>

theorem title_not_trailing_counterexample:
  "\<not> endsInToken ''Fix [ABC-1] now'' \<and>
   getJiraIssueID ''Fix [ABC-1] now'' = ''ABC-1'' \<and>
   parseMRTitle ''Fix [ABC-1] now'' =
     (''Fix '', ''[<https://jira.YOURDOMAIN.com/browse/ABC-1|ABC-1>]'')"
  by code_simp

text \<open>On the documented title format the display title keeps the blank before the bracket.\<close>

lemma parseMRTitle_keeps_space:
  "parseMRTitle ''Title [ISSUE-1234]'' =
     (''Title '', ''[<https://jira.YOURDOMAIN.com/browse/ISSUE-1234|ISSUE-1234>]'')"
  by code_simp

section \<open>The linter on a line of white space\<close>

lemma scanLines_append:
  "scanLines T (xs @ ys) st =
     (case scanLines T xs st of Inl stop \<Rightarrow> Inl stop | Inr st' \<Rightarrow> scanLines T ys st')"
proof (induction xs arbitrary: st)
  case Nil
  show ?case by (cases st) simp
next
  case (Cons x xs)
  obtain pt pk where st: "st = (pt, pk)" by (cases st)
  show ?case
    by (simp add: st Cons.IH Let_def split: list.splits)
qed

lemma scanLines_blank:
  "ws \<noteq> [] \<Longrightarrow> T ws = [] \<Longrightarrow> scanLines T (ws # rest) st = Inl IndexOutOfRange"
  by (cases st) simp

lemma scanLines_stop:
  "scanLines T xs st = Inl stop \<Longrightarrow>
     stop = IndexOutOfRange \<or> (\<exists>a b. stop = TableNotSorted a b) \<or> (\<exists>a b. stop = KeyNotSorted a b)"
proof (induction xs arbitrary: st)
  case Nil
  then show ?case by (cases st) simp
next
  case (Cons x xs)
  obtain pt pk where st: "st = (pt, pk)" by (cases st)
  from Cons.prems show ?case
    by (auto simp: st Let_def split: if_splits list.splits dest: Cons.IH)
qed

text \<open>
  Claim C10, as amended. For every input file that contains a non-empty line of white
  space only, the linter never skips that line and never ends successfully: when no line
  before it ends the run, the run ends at that line with the index-out-of-range panic;
  otherwise the run has ended before, at the earlier line, with that line's sort-order
  failure or with the same panic.
\<close>

theorem blank_line_panics:
  assumes "files filename = Some (before @ ws # after, err)"
    and "ws \<noteq> []" and "TrimSpace ws = []"
  shows "case scanLines TrimSpace before ('''', '''') of
           Inr st \<Rightarrow> lint_main TrimSpace (prog # filename # more) files = IndexOutOfRange
         | Inl stop \<Rightarrow>
             lint_main TrimSpace (prog # filename # more) files = stop \<and>
             (stop = IndexOutOfRange \<or> (\<exists>a b. stop = TableNotSorted a b) \<or>
              (\<exists>a b. stop = KeyNotSorted a b))"
proof (cases "scanLines TrimSpace before ('''', '''')")
  case (Inl stop)
  then have "lint_main TrimSpace (prog # filename # more) files = stop"
    by (simp add: lint_main_def assms(1) scanLines_append)
  with Inl scanLines_stop [OF Inl] show ?thesis by simp
next
  case (Inr st)
  then have "lint_main TrimSpace (prog # filename # more) files = IndexOutOfRange"
    by (simp add: lint_main_def assms(1) scanLines_append scanLines_blank [of ws TrimSpace, OF assms(2,3)])
  with Inr show ?thesis by simp
qed

lemma lint_examples:
  "TrimSpaceASCII '' '' = ''''"
  "scanLines TrimSpaceASCII [''[a]'', ''x = 1''] ('''', '''') = Inr (''a'', ''x'')"
  by code_simp+

theorem blank_line_panics_witness:
  "TrimSpaceASCII '' '' = '''' \<and>
   scanLines TrimSpaceASCII [''[a]'', ''x = 1''] ('''', '''') = Inr (''a'', ''x'') \<and>
   lint_main TrimSpaceASCII [''lint'', ''conf.toml'']
     (\<lambda>f. if f = ''conf.toml'' then Some ([''[a]'', ''x = 1'', '' '', ''y = 2''], None) else None)
   = IndexOutOfRange"
proof -
  let ?files = "\<lambda>f. if f = ''conf.toml'' then Some ([''[a]'', ''x = 1'', '' '', ''y = 2''], None) else None"
  have f: "?files ''conf.toml'' = Some ([''[a]'', ''x = 1''] @ '' '' # [''y = 2''], None)"
    by simp
  have ne: "'' '' \<noteq> ''''" by simp
  from blank_line_panics [of ?files "''conf.toml''" "[''[a]'', ''x = 1'']" "'' ''" "[''y = 2'']" None
      TrimSpaceASCII "''lint''" "[]", OF f ne lint_examples(1)]
  have "lint_main TrimSpaceASCII [''lint'', ''conf.toml''] ?files = IndexOutOfRange"
    by (simp only: lint_examples(2) sum.case)
  with lint_examples show ?thesis by blast
qed

text \<open>
  The claim as it is written fails on a file whose keys are out of order before the line
  of white space: the run ends with the sort-order report and never reaches that line.
\<close>

theorem blank_line_counterexample:
  "'' '' \<noteq> '''' \<and> TrimSpaceASCII '' '' = '''' \<and>
   lint_main TrimSpaceASCII [''lint'', ''conf.toml'']
     (\<lambda>f. if f = ''conf.toml'' then Some ([''b = 1'', ''a = 2'', '' ''], None) else None)
   = KeyNotSorted ''a'' ''b''"
  by code_simp

end
